theory Spec2Isabelle
  imports Main "HOL-Library.AList" "HOL-Library.Sublist"
begin

section \<open>Python strings\<close>

text \<open>
  A Python \<^verbatim>\<open>str\<close> is a sequence of Unicode code points. A character is its code
  point; \<open>u\<close> turns an ASCII literal into such a string.
\<close>

type_synonym uchar = nat
type_synonym ustring = "uchar list"

definition u :: "string \<Rightarrow> ustring" where
  "u = map of_char"

definition backslash :: uchar where
  "backslash = 92"

text \<open>
  The characters \<^verbatim>\<open>str.strip()\<close>, \<^verbatim>\<open>str.isspace()\<close> and the regular expression
  \<^verbatim>\<open>\s\<close> (on a \<^verbatim>\<open>str\<close> pattern) treat as whitespace: U+0009..U+000D,
  U+001C..U+0020, U+0085, U+00A0, U+1680, U+2000..U+200A, U+2028, U+2029, U+202F,
  U+205F and U+3000.
\<close>

definition isspace :: "uchar \<Rightarrow> bool" where
  "isspace c \<longleftrightarrow>
     (9 \<le> c \<and> c \<le> 13) \<or> (28 \<le> c \<and> c \<le> 32) \<or> c = 133 \<or> c = 160 \<or> c = 5760 \<or>
     (8192 \<le> c \<and> c \<le> 8202) \<or> c = 8232 \<or> c = 8233 \<or> c = 8239 \<or> c = 8287 \<or> c = 12288"

text \<open>\<^verbatim>\<open>string.whitespace\<close>, which is \<^verbatim>\<open>' \t\n\r\x0b\x0c'\<close>.\<close>

definition string_whitespace :: ustring where
  "string_whitespace = [32, 9, 10, 13, 11, 12]"

text \<open>
  The tables of the Unicode database and the part of \<^verbatim>\<open>re.sub\<close> that is not modelled
  below are parameters: \<open>isalnum\<close> is \<^verbatim>\<open>str.isalnum\<close> on one character,
  \<open>is_punct\<close> says that \<^verbatim>\<open>unicodedata.category\<close> starts with \<^verbatim>\<open>P\<close>,
  \<open>lower\<close> and \<open>upper\<close> are \<^verbatim>\<open>str.lower\<close> and \<^verbatim>\<open>str.upper\<close>.
\<close>

datatype error = ValueError | AttributeError | TypeError | IndexError | NotImplementedError | ReError

datatype pyval = Str ustring | List "pyval list" | Other

record unicode_db =
  isalnum :: "uchar \<Rightarrow> bool"
  is_punct :: "uchar \<Rightarrow> bool"
  lower :: "ustring \<Rightarrow> ustring"
  upper :: "ustring \<Rightarrow> ustring"
  re_sub_lib :: "ustring \<Rightarrow> ustring \<Rightarrow> pyval \<Rightarrow> error + pyval"

text \<open>\<^verbatim>\<open>s.strip()\<close>\<close>

definition str_strip :: "ustring \<Rightarrow> ustring" where
  "str_strip s = rev (dropWhile isspace (rev (dropWhile isspace s)))"

text \<open>
  \<^verbatim>\<open>s.split(sep)\<close>: the pieces between the leftmost non-overlapping occurrences of
  \<open>sep\<close>; an empty separator raises \<^verbatim>\<open>ValueError\<close>.
\<close>

fun split_from :: "ustring \<Rightarrow> ustring \<Rightarrow> ustring \<Rightarrow> ustring list" where
  "split_from sep cur [] = [cur]"
| "split_from sep cur (c # cs) =
     (if sep \<noteq> [] \<and> prefix sep (c # cs)
      then cur # split_from sep [] (drop (length sep - 1) cs)
      else split_from sep (cur @ [c]) cs)"

definition str_split :: "ustring \<Rightarrow> ustring \<Rightarrow> error + ustring list" where
  "str_split s sep = (if sep = [] then Inl ValueError else Inr (split_from sep [] s))"

text \<open>\<^verbatim>\<open>sep.join(xs)\<close> on a list of strings.\<close>

fun str_join :: "ustring \<Rightarrow> ustring list \<Rightarrow> ustring" where
  "str_join sep [] = []"
| "str_join sep [x] = x"
| "str_join sep (x # y # ys) = x @ sep @ str_join sep (y # ys)"

text \<open>
  \<^verbatim>\<open>s.replace(old, new)\<close>: every leftmost non-overlapping occurrence; an empty
  \<open>old\<close> matches before every character and at the end.
\<close>

fun str_replace :: "ustring \<Rightarrow> ustring \<Rightarrow> ustring \<Rightarrow> ustring" where
  "str_replace [] old new = (if old = [] then new else [])"
| "str_replace (c # cs) old new =
     (if old = [] then new @ c # str_replace cs old new
      else if prefix old (c # cs) then new @ str_replace (drop (length old - 1) cs) old new
      else c # str_replace cs old new)"


section \<open>Regular expressions\<close>

text \<open>
  The part of Python's \<^verbatim>\<open>re\<close> syntax that the transforms use: literal characters,
  escaped characters, the class \<^verbatim>\<open>\s\<close>, the word boundary \<^verbatim>\<open>\b\<close>, sets
  \<^verbatim>\<open>[...]\<close> and \<^verbatim>\<open>[^...]\<close> of single characters, and the greedy repetitions
  \<^verbatim>\<open>*\<close> and \<^verbatim>\<open>+\<close> of a one-character item. \<open>parse\<close> reads the text of a
  pattern; it answers \<open>None\<close> on anything else (groups, alternation, anchors, ranges,
  other escapes and quantifiers), and \<open>re_sub\<close> then hands the call to \<open>re_sub_lib\<close>.
\<close>

datatype atom = Lit uchar | In bool "uchar list" | Whitespace

datatype node = One atom | MaxRepeat nat atom | Boundary

definition ord :: "char \<Rightarrow> uchar" where
  "ord = of_char"

definition ascii_alnum :: "uchar \<Rightarrow> bool" where
  "ascii_alnum c \<longleftrightarrow> (48 \<le> c \<and> c \<le> 57) \<or> (65 \<le> c \<and> c \<le> 90) \<or> (97 \<le> c \<and> c \<le> 122)"

definition repeat_chars :: ustring where
  "repeat_chars = u ''*+?{''"

definition special_chars :: ustring where
  "special_chars = u ''.^$*+?{}|()''"

text \<open>An item followed by its quantifier, if any; lazy, possessive and counted
  repetitions are outside the fragment.\<close>

definition quantified :: "atom \<Rightarrow> ustring \<Rightarrow> (node \<times> ustring) option" where
  "quantified a rest =
     (case rest of
        [] \<Rightarrow> Some (One a, [])
      | q # rest' \<Rightarrow>
          if q = ord CHR ''*'' \<or> q = ord CHR ''+'' then
            (case rest' of
               [] \<Rightarrow> Some (MaxRepeat (if q = ord CHR ''*'' then 0 else 1) a, [])
             | l # _ \<Rightarrow>
                 if l \<in> set repeat_chars then None
                 else Some (MaxRepeat (if q = ord CHR ''*'' then 0 else 1) a, rest'))
          else if q \<in> set repeat_chars then None
          else Some (One a, rest))"

text \<open>The members of a set, up to the closing bracket.\<close>

fun set_items :: "ustring \<Rightarrow> (uchar list \<times> ustring) option" where
  "set_items [] = None"
| "set_items (c # cs) =
     (if c = ord CHR '']'' then Some ([], cs)
      else if c = ord CHR ''-'' then None
      else if c = backslash then
        (case cs of
           [] \<Rightarrow> None
         | e # cs' \<Rightarrow>
             if ascii_alnum e then None
             else map_option (\<lambda>(xs, rest). (e # xs, rest)) (set_items cs'))
      else map_option (\<lambda>(xs, rest). (c # xs, rest)) (set_items cs))"

definition parse_set :: "ustring \<Rightarrow> (atom \<times> ustring) option" where
  "parse_set cs =
     (let negate = (cs \<noteq> [] \<and> hd cs = ord CHR ''^'');
          body = (if negate then tl cs else cs)
      in case set_items body of
           None \<Rightarrow> None
         | Some (xs, rest) \<Rightarrow> if xs = [] then None else Some (In negate xs, rest))"

definition parse_item :: "uchar \<Rightarrow> ustring \<Rightarrow> (node \<times> ustring) option" where
  "parse_item c cs =
     (if c = backslash then
        (case cs of
           [] \<Rightarrow> None
         | e # cs' \<Rightarrow>
             if e = ord CHR ''s'' then quantified Whitespace cs'
             else if e = ord CHR ''b'' then
               (case cs' of
                  [] \<Rightarrow> Some (Boundary, [])
                | q # _ \<Rightarrow> if q \<in> set repeat_chars then None else Some (Boundary, cs'))
             else if ascii_alnum e then None
             else quantified (Lit e) cs')
      else if c = ord CHR ''['' then
        (case parse_set cs of None \<Rightarrow> None | Some (a, rest) \<Rightarrow> quantified a rest)
      else if c \<in> set special_chars then None
      else quantified (Lit c) cs)"

fun parse :: "ustring \<Rightarrow> node list option" where
  "parse [] = Some []"
| "parse (c # cs) =
     (case parse_item c cs of
        None \<Rightarrow> None
      | Some (n, rest) \<Rightarrow>
          if length rest \<le> length cs then map_option (Cons n) (parse rest) else None)"

text \<open>
  \<^verbatim>\<open>re.escape(pattern)\<close>, as Python 3.7 and later do it: a backslash before each of
  the characters
  \<^verbatim>\<open>()[]{}?*+-|^$\.&~#\<close>, space, tab, newline, carriage return, vertical tab and
  form feed.
\<close>

definition escaped_chars :: ustring where
  "escaped_chars = u ''()[]{}?*+-|^$'' @ [backslash] @ u ''.&~# '' @ [9, 10, 13, 11, 12]"

definition re_escape :: "ustring \<Rightarrow> ustring" where
  "re_escape pattern = concat (map (\<lambda>c. if c \<in> set escaped_chars then [backslash, c] else [c]) pattern)"

subsection \<open>Matching\<close>

fun atom_match :: "atom \<Rightarrow> uchar \<Rightarrow> bool" where
  "atom_match (Lit x) c = (c = x)"
| "atom_match (In negate xs) c = (if negate then c \<notin> set xs else c \<in> set xs)"
| "atom_match Whitespace c = isspace c"

text \<open>A word character is alphanumeric or the underscore; the ends of the string
  count as non-word.\<close>

definition is_word :: "unicode_db \<Rightarrow> uchar option \<Rightarrow> bool" where
  "is_word db c = (case c of None \<Rightarrow> False | Some x \<Rightarrow> isalnum db x \<or> x = 95)"

definition at_boundary :: "unicode_db \<Rightarrow> uchar option \<Rightarrow> ustring \<Rightarrow> bool" where
  "at_boundary db prev s = (is_word db prev \<noteq> is_word db (case s of [] \<Rightarrow> None | c # _ \<Rightarrow> Some c))"

definition prev_at :: "uchar option \<Rightarrow> ustring \<Rightarrow> nat \<Rightarrow> uchar option" where
  "prev_at prev s j = (if j = 0 then prev else Some (s ! (j - 1)))"

text \<open>\<open>backtrack f lo k\<close> tries \<open>f k\<close>, \<open>f (k - 1)\<close>, ..., \<open>f lo\<close> and keeps the first
  success: a greedy repetition gives characters back one at a time.\<close>

fun backtrack :: "(nat \<Rightarrow> nat option) \<Rightarrow> nat \<Rightarrow> nat \<Rightarrow> nat option" where
  "backtrack f lo 0 = (if lo = 0 then f 0 else None)"
| "backtrack f lo (Suc k) =
     (if Suc k < lo then None
      else case f (Suc k) of Some r \<Rightarrow> Some r | None \<Rightarrow> backtrack f lo k)"

text \<open>
  \<open>match db p adv n prev s\<close> matches the pattern \<open>p\<close> at the start of \<open>s\<close>, after
  \<open>n\<close> characters of the match so far; \<open>prev\<close> is the character before \<open>s\<close>. It
  answers the length of the match. With \<open>adv\<close> an empty match is refused (the search
  must advance after an empty match).
\<close>

fun match :: "unicode_db \<Rightarrow> node list \<Rightarrow> bool \<Rightarrow> nat \<Rightarrow> uchar option \<Rightarrow> ustring \<Rightarrow> nat option" where
  "match db [] adv n prev s = (if adv \<and> n = 0 then None else Some n)"
| "match db (One a # ns) adv n prev s =
     (case s of
        [] \<Rightarrow> None
      | c # cs \<Rightarrow> if atom_match a c then match db ns adv (Suc n) (Some c) cs else None)"
| "match db (Boundary # ns) adv n prev s =
     (if at_boundary db prev s then match db ns adv n prev s else None)"
| "match db (MaxRepeat lo a # ns) adv n prev s =
     backtrack (\<lambda>j. match db ns adv (n + j) (prev_at prev s j) (drop j s)) lo
       (length (takeWhile (atom_match a) s))"

text \<open>A match lies inside the string, and is not empty where it must advance.\<close>

lemma backtrack_Some:
  "backtrack f lo k = Some r \<Longrightarrow> \<exists>j. lo \<le> j \<and> j \<le> k \<and> f j = Some r"
proof (induction k)
  case 0
  then show ?case by (auto split: if_splits)
next
  case (Suc k)
  show ?case
  proof (cases "f (Suc k)")
    case None
    with Suc.prems have "backtrack f lo k = Some r" by (auto split: if_splits)
    from Suc.IH[OF this] show ?thesis by (metis le_Suc_eq)
  next
    case (Some a)
    with Suc.prems have "lo \<le> Suc k \<and> f (Suc k) = Some r" by (auto split: if_splits)
    then show ?thesis by blast
  qed
qed

lemma match_bounds:
  "match db p adv n prev s = Some m \<Longrightarrow> n \<le> m \<and> m \<le> n + length s \<and> (adv \<longrightarrow> 0 < m)"
proof (induction db p adv n prev s arbitrary: m rule: match.induct)
  case (1 db adv n prev s)
  then show ?case by (auto split: if_splits)
next
  case (2 db a ns adv n prev s)
  then show ?case by (fastforce split: list.splits if_splits)
next
  case (3 db ns adv n prev s)
  then show ?case by (auto split: if_splits)
next
  case (4 db lo a ns adv n prev s)
  from 4(2) obtain j where j: "j \<le> length (takeWhile (atom_match a) s)"
    and m: "match db ns adv (n + j) (prev_at prev s j) (drop j s) = Some m"
    using backtrack_Some by fastforce
  have "j \<le> length s" using j length_takeWhile_le[of "atom_match a" s] by linarith
  with 4(1)[OF m] show ?case by auto
qed

subsection \<open>Substitution\<close>

text \<open>
  \<^verbatim>\<open>pattern.sub(repl, s)\<close> with a literal replacement, as Python 3.7 and later do it:
  from left to right, at each position the pattern is tried; a match is replaced and
  the scan goes on behind it, otherwise the character is copied. After an empty match
  the next match at the same position must not be empty. \<open>adv\<close> is that flag and
  \<open>prev\<close> the character before \<open>s\<close> in the subject.
\<close>

function sub_from :: "unicode_db \<Rightarrow> node list \<Rightarrow> ustring \<Rightarrow> bool \<Rightarrow> uchar option \<Rightarrow> ustring \<Rightarrow> ustring" where
  "sub_from db p repl adv prev s =
     (case match db p adv 0 prev s of
        Some n \<Rightarrow> repl @ sub_from db p repl (n = 0) (prev_at prev s n) (drop n s)
      | None \<Rightarrow> (case s of [] \<Rightarrow> [] | c # cs \<Rightarrow> c # sub_from db p repl False (Some c) cs))"
  by pat_completeness auto
termination
proof (relation "measure (\<lambda>(db, p, repl, adv, prev, s). 2 * length s + (if adv then 0 else 1))", goal_cases)
  case 1
  then show ?case by simp
next
  case (2 db p repl adv prev s c cs)
  then show ?case by simp
next
  case (3 db p repl adv prev s n)
  from match_bounds[OF 3] show ?case by auto
qed

declare sub_from.simps [simp del]

text \<open>
  \<^verbatim>\<open>re.sub(pattern, repl, x)\<close>. A replacement with a backslash is a template, and a
  pattern outside the fragment is not modelled: both go to \<open>re_sub_lib\<close>. A subject
  that is not a string raises \<^verbatim>\<open>TypeError\<close>.
\<close>

definition re_sub :: "unicode_db \<Rightarrow> ustring \<Rightarrow> ustring \<Rightarrow> pyval \<Rightarrow> error + pyval" where
  "re_sub db pattern repl x =
     (case parse pattern of
        None \<Rightarrow> re_sub_lib db pattern repl x
      | Some p \<Rightarrow>
          if backslash \<in> set repl then re_sub_lib db pattern repl x
          else (case x of
                  Str s \<Rightarrow> Inr (Str (sub_from db p repl False None s))
                | _ \<Rightarrow> Inl TypeError))"

section \<open>Transforms\<close>

text \<open>
  Python values: a string, a list, or \<open>Other\<close>, a value that is neither and has no
  string method, no length and no items (\<^verbatim>\<open>None\<close>, a number). An exception is a
  result \<open>Inl e\<close>; \<open>then_do\<close> passes it on.
\<close>

definition then_do :: "error + 'a \<Rightarrow> ('a \<Rightarrow> error + 'b) \<Rightarrow> error + 'b" where
  "then_do m f = (case m of Inl e \<Rightarrow> Inl e | Inr x \<Rightarrow> f x)"

text \<open>\<^verbatim>\<open>for a in xs: x = f(a, x)\<close>\<close>

fun for_each :: "('a \<Rightarrow> 'b \<Rightarrow> error + 'b) \<Rightarrow> 'a list \<Rightarrow> 'b \<Rightarrow> error + 'b" where
  "for_each f [] x = Inr x"
| "for_each f (a # as) x = then_do (f a x) (for_each f as)"

text \<open>\<^verbatim>\<open>[f(x) for x in xs]\<close>\<close>

fun collect :: "('a \<Rightarrow> error + 'b) \<Rightarrow> 'a list \<Rightarrow> error + 'b list" where
  "collect f [] = Inr []"
| "collect f (x # xs) = then_do (f x) (\<lambda>y. then_do (collect f xs) (\<lambda>ys. Inr (y # ys)))"

text \<open>\<^verbatim>\<open>[x for x in xs if p(x)]\<close>\<close>

fun select :: "('a \<Rightarrow> error + bool) \<Rightarrow> 'a list \<Rightarrow> error + 'a list" where
  "select p [] = Inr []"
| "select p (x # xs) =
     then_do (p x) (\<lambda>b. then_do (select p xs) (\<lambda>ys. Inr (if b then x # ys else ys)))"

text \<open>A string method called on \<open>x\<close>: \<^verbatim>\<open>AttributeError\<close> unless \<open>x\<close> is a string.\<close>

definition str_method :: "(ustring \<Rightarrow> error + pyval) \<Rightarrow> pyval \<Rightarrow> error + pyval" where
  "str_method f x = (case x of Str s \<Rightarrow> f s | _ \<Rightarrow> Inl AttributeError)"

text \<open>\<^verbatim>\<open>len(x)\<close>, \<^verbatim>\<open>x[0]\<close> and \<^verbatim>\<open>sep.join(xs)\<close>\<close>

fun len :: "pyval \<Rightarrow> error + nat" where
  "len (Str s) = Inr (length s)"
| "len (List xs) = Inr (length xs)"
| "len Other = Inl TypeError"

fun item0 :: "pyval \<Rightarrow> error + pyval" where
  "item0 (Str []) = Inl IndexError"
| "item0 (Str (c # cs)) = Inr (Str [c])"
| "item0 (List []) = Inl IndexError"
| "item0 (List (x # xs)) = Inr x"
| "item0 Other = Inl TypeError"

fun as_str :: "pyval \<Rightarrow> error + ustring" where
  "as_str (Str s) = Inr s"
| "as_str (List xs) = Inl TypeError"
| "as_str Other = Inl TypeError"

definition join :: "ustring \<Rightarrow> pyval list \<Rightarrow> error + ustring" where
  "join sep xs = then_do (collect as_str xs) (\<lambda>ss. Inr (str_join sep ss))"

text \<open>
  The transform classes with their construction-time configuration. The mapping of a
  substitution transform is the list of its items, in iteration order.
\<close>

datatype transform =
    AbstractTransform
  | BaseRemoveTransform "ustring list" ustring
  | ReduceToListOfListOfWords ustring
  | ReduceToListOfListOfChars
  | ReduceToSingleSentence ustring
  | SubstituteRegexes "(ustring \<times> ustring) list"
  | SubstituteWords "(ustring \<times> ustring) list"
  | RemoveMultipleSpaces
  | Strip
  | RemoveEmptyStrings
  | ExpandCommonEnglishContractions
  | ToLowerCase
  | ToUpperCase
  | RemoveKaldiNonWords

text \<open>The default delimiter of the two delimiter-configured transforms.\<close>

definition default_word_delimiter :: ustring where
  "default_word_delimiter = u '' ''"

text \<open>
  \<^verbatim>\<open>RemoveSpecificWords(words_to_remove)\<close> builds the dictionary
  \<^verbatim>\<open>{word: " " for word in words_to_remove}\<close>: a repeated word keeps its first place.
\<close>

definition RemoveSpecificWords :: "ustring list \<Rightarrow> transform" where
  "RemoveSpecificWords words_to_remove =
     SubstituteWords (foldl (\<lambda>mapping word. AList.update word (u '' '') mapping) [] words_to_remove)"

definition RemoveWhiteSpace :: "bool \<Rightarrow> transform" where
  "RemoveWhiteSpace replace_by_space =
     BaseRemoveTransform (map (\<lambda>c. [c]) string_whitespace) (if replace_by_space then u '' '' else [])"

text \<open>The punctuation characters among the code points below \<^verbatim>\<open>sys.maxunicode + 1\<close>
  (Python lists them in the order of a set, which no result depends on).\<close>

definition RemovePunctuation :: "unicode_db \<Rightarrow> transform" where
  "RemovePunctuation db =
     BaseRemoveTransform (map (\<lambda>c. [c]) (filter (is_punct db) [0..<1114112])) []"

text \<open>The patterns of the source: \<^verbatim>\<open>r"\s\s+"\<close>, \<^verbatim>\<open>r"[<\[][^>\]]*[>\]]"\<close>, the
  word pattern \<^verbatim>\<open>r"\b{}\b".format(re.escape(key))\<close>, and the contractions in the
  order of their statements.\<close>

definition multiple_spaces_pattern :: ustring where
  "multiple_spaces_pattern = backslash # u ''s'' @ backslash # u ''s+''"

definition kaldi_pattern :: ustring where
  "kaldi_pattern = u ''[<'' @ backslash # u ''[][^>'' @ backslash # u '']]*[>'' @ backslash # u '']]''"

definition word_pattern :: "ustring \<Rightarrow> ustring" where
  "word_pattern key = backslash # u ''b'' @ re_escape key @ backslash # u ''b''"

definition contractions :: "(ustring \<times> ustring) list" where
  "contractions =
     [(u ''won't'', u ''will not''),
      (u ''can'' @ backslash # u '''t'', u ''can not''),
      (u ''let'' @ backslash # u '''s'', u ''let us''),
      (u ''n'' @ backslash # u '''t'', u '' not''),
      (backslash # u '''re'', u '' are''),
      (backslash # u '''s'', u '' is''),
      (backslash # u '''d'', u '' would''),
      (backslash # u '''ll'', u '' will''),
      (backslash # u '''t'', u '' not''),
      (backslash # u '''ve'', u '' have''),
      (backslash # u '''m'', u '' am'')]"

fun process_string :: "unicode_db \<Rightarrow> transform \<Rightarrow> pyval \<Rightarrow> error + pyval" where
  "process_string db AbstractTransform s = Inl NotImplementedError"
| "process_string db (BaseRemoveTransform tokens_to_remove replace_token) s =
     for_each (\<lambda>w. str_method (\<lambda>s. Inr (Str (str_replace s w replace_token)))) tokens_to_remove s"
| "process_string db (ReduceToListOfListOfWords word_delimiter) s =
     str_method (\<lambda>s. then_do (str_split s word_delimiter)
       (\<lambda>ws. Inr (List [List (map Str (filter (\<lambda>w. length w \<ge> 1) ws))]))) s"
| "process_string db ReduceToListOfListOfChars s =
     (case s of
        Str cs \<Rightarrow> Inr (List [List (map (\<lambda>w. Str [w]) cs)])
      | List ws \<Rightarrow> Inr (List [List ws])
      | Other \<Rightarrow> Inl TypeError)"
| "process_string db (ReduceToSingleSentence word_delimiter) s = Inr s"
| "process_string db (SubstituteRegexes substitutions) s =
     for_each (\<lambda>(key, value). re_sub db key value) substitutions s"
| "process_string db (SubstituteWords substitutions) s =
     for_each (\<lambda>(key, value). re_sub db (word_pattern key) value) substitutions s"
| "process_string db RemoveMultipleSpaces s = re_sub db multiple_spaces_pattern (u '' '') s"
| "process_string db Strip s = str_method (\<lambda>s. Inr (Str (str_strip s))) s"
| "process_string db RemoveEmptyStrings s = str_method (\<lambda>s. Inr (Str (str_strip s))) s"
| "process_string db ExpandCommonEnglishContractions s =
     for_each (\<lambda>(pattern, repl). re_sub db pattern repl) contractions s"
| "process_string db ToLowerCase s = str_method (\<lambda>s. Inr (Str (lower db s))) s"
| "process_string db ToUpperCase s = str_method (\<lambda>s. Inr (Str (upper db s))) s"
| "process_string db RemoveKaldiNonWords s = re_sub db kaldi_pattern [] s"

text \<open>The collection processing. Four classes have their own; two repeat the
  per-element processing of the base class, which the others inherit.\<close>

fun process_list :: "unicode_db \<Rightarrow> transform \<Rightarrow> pyval list \<Rightarrow> error + pyval" where
  "process_list db (BaseRemoveTransform tokens_to_remove replace_token) inp =
     then_do (collect (process_string db (BaseRemoveTransform tokens_to_remove replace_token)) inp)
       (\<lambda>rs. Inr (List rs))"
| "process_list db RemoveMultipleSpaces inp =
     then_do (collect (process_string db RemoveMultipleSpaces) inp) (\<lambda>rs. Inr (List rs))"
| "process_list db (ReduceToListOfListOfWords word_delimiter) inp =
     then_do
       (collect (\<lambda>sentence.
          then_do (process_string db (ReduceToListOfListOfWords word_delimiter) sentence) item0) inp)
       (\<lambda>sentence_collection.
          if length sentence_collection = 0 then Inr (List [List []])
          else Inr (List sentence_collection))"
| "process_list db ReduceToListOfListOfChars inp =
     then_do
       (collect (\<lambda>sentence. then_do (process_string db ReduceToListOfListOfChars sentence) item0) inp)
       (\<lambda>sentence_collection.
          if length sentence_collection = 0 then Inr (List [List []])
          else Inr (List sentence_collection))"
| "process_list db (ReduceToSingleSentence word_delimiter) inp =
     then_do (select (\<lambda>i. then_do (len i) (\<lambda>n. Inr (n \<ge> 1))) inp)
       (\<lambda>filtered_inp.
          if length filtered_inp = 0 then Inr (List [])
          else then_do (join word_delimiter filtered_inp) (\<lambda>s. Inr (List [Str s])))"
| "process_list db RemoveEmptyStrings inp =
     then_do
       (select (\<lambda>s. then_do (process_string db RemoveEmptyStrings s) (\<lambda>r. Inr (r \<noteq> Str []))) inp)
       (\<lambda>kept. Inr (List kept))"
| "process_list db t inp = then_do (collect (process_string db t) inp) (\<lambda>rs. Inr (List rs))"

text \<open>\<^verbatim>\<open>AbstractTransform.__call__\<close>\<close>

fun call :: "unicode_db \<Rightarrow> transform \<Rightarrow> pyval \<Rightarrow> error + pyval" where
  "call db t (Str s) = process_string db t (Str s)"
| "call db t (List inp) = process_list db t inp"
| "call db t Other = Inl ValueError"

text \<open>\<^verbatim>\<open>Compose(transforms)(text)\<close>\<close>

fun Compose :: "unicode_db \<Rightarrow> transform list \<Rightarrow> pyval \<Rightarrow> error + pyval" where
  "Compose db [] text = Inr text"
| "Compose db (tr # transforms) text = then_do (call db tr text) (Compose db transforms)"

text \<open>The classes whose collection processing is their own, not the per-element one.\<close>

fun collection_aware :: "transform \<Rightarrow> bool" where
  "collection_aware (ReduceToListOfListOfWords word_delimiter) = True"
| "collection_aware ReduceToListOfListOfChars = True"
| "collection_aware (ReduceToSingleSentence word_delimiter) = True"
| "collection_aware RemoveEmptyStrings = True"
| "collection_aware t = False"

text \<open>An ASCII instance of the tables, to evaluate examples.\<close>

definition ascii_db :: unicode_db where
  "ascii_db =
     \<lparr> isalnum = ascii_alnum,
       is_punct = (\<lambda>c. c \<in> set (u ''!,.:;?'')),
       lower = map (\<lambda>c. if 65 \<le> c \<and> c \<le> 90 then c + 32 else c),
       upper = map (\<lambda>c. if 97 \<le> c \<and> c \<le> 122 then c - 32 else c),
       re_sub_lib = (\<lambda>pattern repl x. Inl ReError) \<rparr>"

text \<open>The contractions and their replacements as plain strings, in the order in which
  they are rewritten.\<close>

definition contraction_table :: "(ustring \<times> ustring) list" where
  "contraction_table =
     [(u ''won't'', u ''will not''),
      (u ''can't'', u ''can not''),
      (u ''let's'', u ''let us''),
      (u ''n't'', u '' not''),
      (u '''re'', u '' are''),
      (u '''s'', u '' is''),
      (u '''d'', u '' would''),
      (u '''ll'', u '' will''),
      (u '''t'', u '' not''),
      (u '''ve'', u '' have''),
      (u '''m'', u '' am'')]"

text \<open>
  Collapsing, in words: from left to right, a run of two or more whitespace characters
  becomes one space; a single whitespace character stays as it is.
\<close>

function collapse :: "ustring \<Rightarrow> ustring" where
  "collapse [] = []"
| "collapse [c] = [c]"
| "collapse (a # b # cs) =
     (if isspace a \<and> isspace b then 32 # collapse (dropWhile isspace cs) else a # collapse (b # cs))"
  by pat_completeness auto
termination
  by (relation "measure length") (auto simp add: length_dropWhile_le less_Suc_eq_le le_SucI)

text \<open>The parsed pattern of the multi-space collapse.\<close>

definition multiple_spaces :: "node list" where
  "multiple_spaces = [One Whitespace, MaxRepeat 1 Whitespace]"

text \<open>A string with two whitespace characters side by side, and a string with no
  whitespace at either end.\<close>

fun adjacent_spaces :: "ustring \<Rightarrow> bool" where
  "adjacent_spaces (a # b # cs) = ((isspace a \<and> isspace b) \<or> adjacent_spaces (b # cs))"
| "adjacent_spaces cs = False"

definition trimmed :: "ustring \<Rightarrow> bool" where
  "trimmed s \<longleftrightarrow> s = [] \<or> (\<not> isspace (hd s) \<and> \<not> isspace (last s))"

text \<open>
  Removing bracketed tokens, in words: from left to right, an opener \<^verbatim>\<open><\<close> or
  \<^verbatim>\<open>[\<close> that has a closer \<^verbatim>\<open>>\<close> or \<^verbatim>\<open>]\<close> somewhere after it is removed together
  with everything up to the first such closer; every other character is kept.
  \<open>kaldi_non_word\<close> is the parsed pattern.
\<close>

definition openers :: "uchar list" where "openers = u ''<[''"
definition closers :: "uchar list" where "closers = u ''>]''"

definition kaldi_non_word :: "node list" where
  "kaldi_non_word = [One (In False openers), MaxRepeat 0 (In True closers), One (In False closers)]"

function remove_bracketed :: "ustring \<Rightarrow> ustring" where
  "remove_bracketed [] = []"
| "remove_bracketed (c # cs) =
     (if c \<in> set openers then
        (case dropWhile (\<lambda>x. x \<notin> set closers) cs of
           [] \<Rightarrow> c # remove_bracketed cs
         | closer # rest \<Rightarrow> remove_bracketed rest)
      else c # remove_bracketed cs)"
  by pat_completeness auto
termination
proof (relation "measure length", goal_cases)
  case 1
  then show ?case by simp
next
  case (2 c cs)
  then show ?case by simp
next
  case (3 c cs closer rest)
  have "length (dropWhile (\<lambda>x. x \<notin> set closers) cs) \<le> length cs" by (rule length_dropWhile_le)
  with 3 show ?case by simp
next
  case (4 c cs)
  then show ?case by simp
qed

text \<open>The pattern that matches the string \<open>k\<close> itself, character by character.\<close>

definition literal :: "ustring \<Rightarrow> node list" where
  "literal k = map (\<lambda>c. One (Lit c)) k"

text \<open>The pattern of a whole word: the string \<open>key\<close> itself between two word
  boundaries.\<close>

definition word_nodes :: "ustring \<Rightarrow> node list" where
  "word_nodes key = Boundary # literal key @ [Boundary]"

text \<open>A rest of a pattern that does not start with a quantifier.\<close>

definition plain_start :: "ustring \<Rightarrow> bool" where
  "plain_start rest = (case rest of [] \<Rightarrow> True | q # r \<Rightarrow> q \<notin> set repeat_chars)"

text \<open>The tokens of a sentence: the pieces between the delimiters that are not empty.\<close>

definition tokens :: "ustring \<Rightarrow> ustring \<Rightarrow> ustring list" where
  "tokens word_delimiter s = filter (\<lambda>w. w \<noteq> []) (split_from word_delimiter [] s)"

text \<open>What a value is, for the statements about the dispatch.\<close>

fun is_str :: "pyval \<Rightarrow> bool" where
  "is_str (Str s) = True"
| "is_str v = False"

fun is_list :: "pyval \<Rightarrow> bool" where
  "is_list (List xs) = True"
| "is_list v = False"

fun is_list_of_str :: "pyval \<Rightarrow> bool" where
  "is_list_of_str (List xs) = list_all is_str xs"
| "is_list_of_str v = False"

section \<open>Basic facts\<close>

lemma then_do_simps [simp]:
  "then_do (Inr x) f = f x"
  "then_do (Inl e) f = Inl e"
  by (simp_all add: then_do_def)

lemma str_method_simps [simp]:
  "str_method g (Str s) = g s"
  "str_method g (List xs) = Inl AttributeError"
  "str_method g Other = Inl AttributeError"
  by (simp_all add: str_method_def)

lemma collect_as_str_map: "collect as_str (map Str l) = Inr l"
  by (induction l) simp_all

lemma join_map_Str: "join sep (map Str l) = Inr (str_join sep l)"
  by (simp add: join_def collect_as_str_map)

section \<open>The dispatch of a transform\<close>

text \<open>
  C1. A transform with the per-element collection processing, applied to the list of
  one string, gives the list of what it gives on the string; an exception on the string
  is the exception on the list.
\<close>

theorem default_collection_singleton:
  "\<not> collection_aware t \<Longrightarrow>
     call db t (List [Str s]) = (case call db t (Str s) of Inl e \<Rightarrow> Inl e | Inr v \<Rightarrow> Inr (List [v]))"
  by (cases t) (simp_all add: then_do_def split: sum.splits)

theorem default_collection_singleton_witness:
  "\<not> collection_aware Strip \<and>
   call ascii_db Strip (Str (u '' a '')) = Inr (Str (u ''a'')) \<and>
   call ascii_db Strip (List [Str (u '' a '')]) = Inr (List [Str (u ''a'')])"
  using default_collection_singleton [of Strip ascii_db "u '' a ''"]
  by (simp add: str_method_def str_strip_def u_def isspace_def)

text \<open>
  C2, as the code has it. A value that is neither a string nor a list raises
  \<^verbatim>\<open>ValueError\<close>. A string goes to the per-string processing and a list, whatever its
  elements are, to the collection processing: the dispatch raises nothing there and
  checks no element.
\<close>

theorem call_dispatch:
  "(\<not> is_str v \<and> \<not> is_list v \<longrightarrow> call db t v = Inl ValueError) \<and>
   call db t (Str s) = process_string db t (Str s) \<and>
   call db t (List inp) = process_list db t inp"
  by (cases v) simp_all

theorem call_dispatch_witness:
  "\<not> is_str Other \<and> \<not> is_list Other \<and> call ascii_db Strip Other = Inl ValueError \<and>
   call ascii_db Strip (Str (u ''a '')) = Inr (Str (u ''a'')) \<and>
   call ascii_db Strip (List [Str (u ''a '')]) = Inr (List [Str (u ''a'')])"
  using call_dispatch [of Other ascii_db Strip "u ''a ''" "[Str (u ''a '')]"]
  by (simp add: str_method_def str_strip_def u_def isspace_def then_do_def)

text \<open>
  C2 as stated fails: the list \<^verbatim>\<open>[["a"]]\<close> is neither a string nor a list of strings,
  and the character reduction returns it; the trim transform raises on it, but
  \<^verbatim>\<open>AttributeError\<close>, not the error of the dispatch.
\<close>

theorem list_of_lists_not_rejected:
  "\<not> is_str (List [List [Str (u ''a'')]]) \<and>
   \<not> is_list_of_str (List [List [Str (u ''a'')]]) \<and>
   call ascii_db ReduceToListOfListOfChars (List [List [Str (u ''a'')]]) = Inr (List [List [Str (u ''a'')]]) \<and>
   call ascii_db Strip (List [List [Str (u ''a'')]]) = Inl AttributeError"
  by (simp add: then_do_def str_method_def)

section \<open>Sentence join and empty-string filter\<close>

lemma select_nonempty_map_Str:
  "select (\<lambda>i. then_do (len i) (\<lambda>n. Inr (n \<ge> 1))) (map Str l) = Inr (map Str (filter (\<lambda>x. x \<noteq> []) l))"
  by (induction l) (auto simp add: Suc_le_eq)

text \<open>
  C4. The sentence join returns a single string as it is. On a list of strings it
  returns the list of one string, the non-empty elements joined in order by the
  delimiter, and the empty list when every element is empty (also for the empty list).
\<close>

theorem reduce_to_single_sentence:
  "call db (ReduceToSingleSentence word_delimiter) (Str s) = Inr (Str s) \<and>
   call db (ReduceToSingleSentence word_delimiter) (List (map Str l)) =
     Inr (List (if \<forall>x \<in> set l. x = [] then []
                else [Str (str_join word_delimiter (filter (\<lambda>x. x \<noteq> []) l))]))"
proof -
  have "filter (\<lambda>x. x \<noteq> []) l = [] \<longleftrightarrow> (\<forall>x \<in> set l. x = [])"
    by (auto simp: filter_empty_conv)
  then show ?thesis
    by (simp only: call.simps process_list.simps process_string.simps select_nonempty_map_Str)
      (simp add: join_map_Str)
qed

theorem reduce_to_single_sentence_witness:
  "call ascii_db (ReduceToSingleSentence (u '' '')) (Str (u ''a b'')) = Inr (Str (u ''a b'')) \<and>
   call ascii_db (ReduceToSingleSentence (u '' '')) (List (map Str [u ''a b'', [], u ''c'']))
     = Inr (List [Str (u ''a b c'')]) \<and>
   call ascii_db (ReduceToSingleSentence (u '' '')) (List (map Str [[], []])) = Inr (List [])"
  using reduce_to_single_sentence [of ascii_db "u '' ''" "u ''a b''" "[u ''a b'', [], u ''c'']"]
    reduce_to_single_sentence [of ascii_db "u '' ''" "u ''a b''" "[[], []]"]
  by (simp add: u_def)

lemma str_strip_empty_iff: "str_strip s = [] \<longleftrightarrow> (\<forall>c \<in> set s. isspace c)"
proof (cases "dropWhile isspace s = []")
  case True
  then have "str_strip s = []" by (simp only: str_strip_def) simp
  with True show ?thesis by simp
next
  case False
  then have "hd (dropWhile isspace s) \<in> set (dropWhile isspace s)" "\<not> isspace (hd (dropWhile isspace s))"
    using hd_dropWhile[of isspace s] by simp_all
  then have "\<not> (\<forall>c \<in> set (dropWhile isspace s). isspace c)" by blast
  moreover have "\<not> (\<forall>c \<in> set s. isspace c)" using False by simp
  ultimately show ?thesis by (auto simp add: str_strip_def)
qed

lemma select_strip_map_Str:
  "select (\<lambda>s. then_do (process_string db RemoveEmptyStrings s) (\<lambda>r. Inr (r \<noteq> Str []))) (map Str l)
     = Inr (map Str (filter (\<lambda>s. str_strip s \<noteq> []) l))"
  by (induction l) auto

text \<open>
  C9. The empty-string filter keeps, unchanged and in order, the elements of a list of
  strings that are not empty after trimming, which are those with a character that is
  not whitespace; a single string it returns trimmed.
\<close>

theorem remove_empty_strings:
  "call db RemoveEmptyStrings (List (map Str l)) =
     Inr (List (map Str (filter (\<lambda>s. str_strip s \<noteq> []) l))) \<and>
   filter (\<lambda>s. str_strip s \<noteq> []) l = filter (\<lambda>s. \<exists>c \<in> set s. \<not> isspace c) l \<and>
   call db RemoveEmptyStrings (Str s) = Inr (Str (str_strip s))"
  by (simp only: call.simps process_list.simps select_strip_map_Str)
    (simp add: str_strip_empty_iff)

theorem remove_empty_strings_witness:
  "call ascii_db RemoveEmptyStrings (List (map Str [u '' a'', u ''  '', [], u ''b''])) =
     Inr (List (map Str [u '' a'', u ''b''])) \<and>
   call ascii_db RemoveEmptyStrings (Str (u '' a '')) = Inr (Str (u ''a''))"
  using remove_empty_strings [of ascii_db "[u '' a'', u ''  '', [], u ''b'']" "u '' a ''"]
  by (simp add: u_def isspace_def str_strip_def)

section \<open>Whitespace removal\<close>

lemma str_replace_char_remove: "str_replace s [c] [] = filter (\<lambda>x. x \<noteq> c) s"
  by (induction s) auto

lemma str_replace_char_char: "str_replace s [c] [d] = map (\<lambda>x. if x = c then d else x) s"
  by (induction s) auto

text \<open>
  C8, as the code has it. The whitespace removal deletes exactly the characters of
  \<^verbatim>\<open>string.whitespace\<close> (space, tab, newline, carriage return, vertical tab, form
  feed) and keeps every other character; with replace-by-space it puts one space for
  each of them.
\<close>

theorem remove_white_space:
  "call db (RemoveWhiteSpace False) (Str s) = Inr (Str (filter (\<lambda>c. c \<notin> set string_whitespace) s)) \<and>
   call db (RemoveWhiteSpace True) (Str s) =
     Inr (Str (map (\<lambda>c. if c \<in> set string_whitespace then 32 else c) s))"
proof -
  have "(\<lambda>x. x \<noteq> 12 \<and> x \<noteq> 11 \<and> x \<noteq> 13 \<and> x \<noteq> 10 \<and> x \<noteq> 9 \<and> x \<noteq> (32::nat)) =
        (\<lambda>c. c \<noteq> 32 \<and> c \<noteq> 9 \<and> c \<noteq> 10 \<and> c \<noteq> 13 \<and> c \<noteq> 11 \<and> c \<noteq> 12)"
    by auto
  then show ?thesis
    by (auto simp add: RemoveWhiteSpace_def string_whitespace_def u_def
        str_replace_char_remove str_replace_char_char)
qed

theorem remove_white_space_witness:
  "call ascii_db (RemoveWhiteSpace False) (Str (u ''a b'' @ [9, 10] @ u ''c'')) = Inr (Str (u ''abc'')) \<and>
   call ascii_db (RemoveWhiteSpace True) (Str (u ''a b'' @ [9, 10] @ u ''c'')) = Inr (Str (u ''a b  c''))"
  using remove_white_space [of ascii_db "u ''a b'' @ [9, 10] @ u ''c''"]
  by (simp add: u_def string_whitespace_def)

text \<open>
  C8 as stated fails: the no-break space U+00A0 is whitespace (the trim transform
  strips it), and it survives the whitespace removal in both modes.
\<close>

theorem unicode_whitespace_survives:
  "isspace 160 \<and>
   call ascii_db Strip (Str [160]) = Inr (Str []) \<and>
   call ascii_db (RemoveWhiteSpace False) (Str [97, 160, 98]) = Inr (Str [97, 160, 98]) \<and>
   call ascii_db (RemoveWhiteSpace True) (Str [97, 160, 98]) = Inr (Str [97, 160, 98])"
  by (simp add: isspace_def str_strip_def RemoveWhiteSpace_def string_whitespace_def u_def)

section \<open>Token and character reduction\<close>

lemma split_from_not_Nil: "split_from sep cur s \<noteq> []"
  by (induction sep cur s rule: split_from.induct) auto

lemma str_join_Cons: "ys \<noteq> [] \<Longrightarrow> str_join sep (x # ys) = x @ sep @ str_join sep ys"
  by (cases ys) auto

lemma join_split_from: "sep \<noteq> [] \<Longrightarrow> str_join sep (split_from sep cur s) = cur @ s"
proof (induction sep cur s rule: split_from.induct)
  case (1 sep cur)
  then show ?case by simp
next
  case (2 sep cur c cs)
  show ?case
  proof (cases "prefix sep (c # cs)")
    case True
    then obtain rest where rest: "c # cs = sep @ rest" by (auto simp: prefix_def)
    with 2(3) have dr: "drop (length sep - 1) cs = rest"
      by (cases sep) auto
    have step: "split_from sep cur (c # cs) = cur # split_from sep [] rest"
      using True 2(3) dr by simp
    have "str_join sep (split_from sep [] rest) = rest"
      using 2(1) 2(3) True dr by simp
    then have "str_join sep (split_from sep cur (c # cs)) = cur @ sep @ rest"
      by (simp only: step str_join_Cons[OF split_from_not_Nil])
    then show ?thesis by (simp only: rest)
  next
    case False
    with 2 show ?thesis by simp
  qed
qed

lemma split_from_no_sep:
  "sep \<noteq> [] \<Longrightarrow> (\<forall>i < length cur. \<not> prefix sep (drop i (cur @ s))) \<Longrightarrow>
     \<forall>p \<in> set (split_from sep cur s). \<not> sublist sep p"
proof (induction sep cur s rule: split_from.induct)
  case (1 sep cur)
  have "\<not> sublist sep cur"
  proof
    assume "sublist sep cur"
    then obtain ps ss where "cur = ps @ sep @ ss" by (auto simp: sublist_def)
    with 1 show False by (auto simp: prefix_def dest!: spec[of _ "length ps"])
  qed
  then show ?case by simp
next
  case (2 sep cur c cs)
  show ?case
  proof (cases "prefix sep (c # cs)")
    case True
    have "\<not> sublist sep cur"
    proof
      assume "sublist sep cur"
      then obtain ps ss where "cur = ps @ sep @ ss" by (auto simp: sublist_def)
      with 2(3,4) show False by (auto simp: prefix_def dest!: spec[of _ "length ps"])
    qed
    moreover have "\<forall>p \<in> set (split_from sep [] (drop (length sep - 1) cs)). \<not> sublist sep p"
      using 2(1) 2(3) True by simp
    ultimately show ?thesis using True 2(3) by simp
  next
    case False
    have "\<forall>i<length (cur @ [c]). \<not> prefix sep (drop i ((cur @ [c]) @ cs))"
    proof (intro allI impI)
      fix i assume "i < length (cur @ [c])"
      then consider "i < length cur" | "i = length cur" by fastforce
      then show "\<not> prefix sep (drop i ((cur @ [c]) @ cs))"
      proof cases
        case 1
        with 2(4) show ?thesis by simp
      next
        case 2
        with False show ?thesis by simp
      qed
    qed
    with 2(2)[OF _ 2(3)] False show ?thesis by simp
  qed
qed

lemma collect_words_map_Str:
  "word_delimiter \<noteq> [] \<Longrightarrow>
   collect (\<lambda>sentence. then_do (process_string db (ReduceToListOfListOfWords word_delimiter) sentence) item0)
     (map Str l) = Inr (map (\<lambda>s. List (map Str (tokens word_delimiter s))) l)"
  by (induction l) (simp_all add: str_split_def tokens_def Suc_le_eq)

lemma collect_chars_map_Str:
  "collect (\<lambda>sentence. then_do (process_string db ReduceToListOfListOfChars sentence) item0)
     (map Str l) = Inr (map (\<lambda>s. List (map (\<lambda>c. Str [c]) s)) l)"
  by (induction l) simp_all

text \<open>
  C3. With a delimiter that is not empty, the word reduction of a string is the list
  of one token list: the pieces of the string between the delimiters, the empty ones
  left out. Joining the pieces with the delimiter gives the string back, and no piece
  holds the delimiter. The character reduction gives the characters. On a list of
  strings both give one token list for each sentence, in order, and on the empty list
  the list of one empty token list.
\<close>

theorem reduce_to_list_of_list:
  "word_delimiter \<noteq> [] \<Longrightarrow>
   call db (ReduceToListOfListOfWords word_delimiter) (Str s) =
     Inr (List [List (map Str (tokens word_delimiter s))]) \<and>
   call db (ReduceToListOfListOfWords word_delimiter) (List (map Str l)) =
     Inr (List (if l = [] then [List []] else map (\<lambda>s. List (map Str (tokens word_delimiter s))) l)) \<and>
   call db ReduceToListOfListOfChars (Str s) = Inr (List [List (map (\<lambda>c. Str [c]) s)]) \<and>
   call db ReduceToListOfListOfChars (List (map Str l)) =
     Inr (List (if l = [] then [List []] else map (\<lambda>s. List (map (\<lambda>c. Str [c]) s)) l)) \<and>
   str_join word_delimiter (split_from word_delimiter [] s) = s \<and>
   (\<forall>p \<in> set (split_from word_delimiter [] s). \<not> sublist word_delimiter p) \<and>
   [] \<notin> set (tokens word_delimiter s)"
proof -
  assume d: "word_delimiter \<noteq> []"
  have 1: "call db (ReduceToListOfListOfWords word_delimiter) (Str s) =
     Inr (List [List (map Str (tokens word_delimiter s))])"
    using d by (simp add: str_split_def tokens_def Suc_le_eq)
  have 2: "call db (ReduceToListOfListOfWords word_delimiter) (List (map Str l)) =
     Inr (List (if l = [] then [List []] else map (\<lambda>s. List (map Str (tokens word_delimiter s))) l))"
    by (simp only: call.simps process_list.simps collect_words_map_Str[OF d]) simp
  have 3: "call db ReduceToListOfListOfChars (List (map Str l)) =
     Inr (List (if l = [] then [List []] else map (\<lambda>s. List (map (\<lambda>c. Str [c]) s)) l))"
    by (simp only: call.simps process_list.simps collect_chars_map_Str) simp
  have 4: "str_join word_delimiter (split_from word_delimiter [] s) = s"
    using join_split_from[OF d, of "[]" s] by simp
  have 5: "\<forall>p \<in> set (split_from word_delimiter [] s). \<not> sublist word_delimiter p"
    using split_from_no_sep[OF d, of "[]" s] by simp
  have 6: "[] \<notin> set (tokens word_delimiter s)" by (simp add: tokens_def)
  from 1 2 3 4 5 6 show ?thesis by simp
qed

theorem reduce_to_list_of_list_witness:
  "default_word_delimiter \<noteq> [] \<and>
   call ascii_db (ReduceToListOfListOfWords default_word_delimiter) (Str (u ''a  bc '')) =
     Inr (List [List [Str (u ''a''), Str (u ''bc'')]]) \<and>
   call ascii_db (ReduceToListOfListOfWords default_word_delimiter) (List (map Str [u ''a b'', []])) =
     Inr (List [List [Str (u ''a''), Str (u ''b'')], List []]) \<and>
   call ascii_db ReduceToListOfListOfChars (List (map Str [u ''a b'', []])) =
     Inr (List [List [Str (u ''a''), Str (u '' ''), Str (u ''b'')], List []])"
  using reduce_to_list_of_list [of default_word_delimiter ascii_db "u ''a  bc ''" "[u ''a b'', []]"]
  by (simp add: default_word_delimiter_def u_def tokens_def)

section \<open>Substitution of a literal pattern\<close>

lemma sub_from_None:
  "match db p adv 0 prev s = None \<Longrightarrow>
   sub_from db p repl adv prev s = (case s of [] \<Rightarrow> [] | c # cs \<Rightarrow> c # sub_from db p repl False (Some c) cs)"
  by (subst sub_from.simps) simp

lemma sub_from_Some:
  "match db p adv 0 prev s = Some n \<Longrightarrow>
   sub_from db p repl adv prev s = repl @ sub_from db p repl (n = 0) (prev_at prev s n) (drop n s)"
  by (subst sub_from.simps) simp

lemma match_literal_append:
  "match db (literal k @ ns) adv n prev s =
     (if prefix k s then match db ns adv (n + length k) (prev_at prev s (length k)) (drop (length k) s)
      else None)"
proof (induction k arbitrary: n prev s)
  case Nil
  then show ?case by (simp add: literal_def prev_at_def)
next
  case (Cons c k)
  show ?case
  proof (cases s)
    case Nil
    then show ?thesis by (simp add: literal_def)
  next
    case (Cons x xs)
    have "prev_at (Some x) xs (length k) = prev_at prev (x # xs) (Suc (length k))"
      by (cases k) (simp_all add: prev_at_def)
    with Cons Cons.IH[of "Suc n" "Some x" xs] show ?thesis
      by (auto simp add: literal_def)
  qed
qed

lemma match_literal:
  "k \<noteq> [] \<Longrightarrow> match db (literal k) adv n prev s = (if prefix k s then Some (n + length k) else None)"
  using match_literal_append[of db k "[]" adv n prev s] by simp

lemma sub_from_literal:
  assumes k: "k \<noteq> []"
  shows "sub_from db (literal k) repl adv prev s = str_replace s k repl"
proof (induction s arbitrary: adv prev rule: length_induct)
  case (1 s)
  show ?case
  proof (cases s)
    case Nil
    then show ?thesis using k by (simp add: sub_from_None match_literal)
  next
    case (Cons c cs)
    show ?thesis
    proof (cases "prefix k (c # cs)")
      case True
      then have m: "match db (literal k) adv 0 prev s = Some (length k)"
        using k Cons by (simp add: match_literal)
      have d: "drop (length k) (c # cs) = drop (length k - 1) cs"
        using k by (cases k) simp_all
      have "length (drop (length k - 1) cs) < length s" using Cons by simp
      then have "sub_from db (literal k) repl (length k = 0) (prev_at prev s (length k)) (drop (length k - 1) cs)
          = str_replace (drop (length k - 1) cs) k repl"
        using 1 by blast
      moreover have "length k \<noteq> 0" using k by simp
      moreover note sub_from_Some[OF m, of repl]
      ultimately show ?thesis
        using True k Cons d by simp
    next
      case False
      then have m: "match db (literal k) adv 0 prev s = None"
        using k Cons by (simp add: match_literal)
      have "sub_from db (literal k) repl False (Some c) cs = str_replace cs k repl"
        using 1 Cons by simp
      moreover note sub_from_None[OF m, of repl]
      ultimately show ?thesis
        using False k Cons by simp
    qed
  qed
qed

section \<open>Contraction expansion\<close>

lemma re_sub_literal:
  "parse pattern = Some (literal k) \<Longrightarrow> k \<noteq> [] \<Longrightarrow> backslash \<notin> set repl \<Longrightarrow>
     re_sub db pattern repl (Str s) = Inr (Str (str_replace s k repl))"
  by (simp add: re_sub_def sub_from_literal)

lemma for_each_re_sub_literal:
  "list_all2 (\<lambda>(pattern, repl) (old, new).
       parse pattern = Some (literal old) \<and> old \<noteq> [] \<and> repl = new \<and> backslash \<notin> set repl) ps tbl \<Longrightarrow>
   for_each (\<lambda>(pattern, repl). re_sub db pattern repl) ps (Str s) =
     Inr (Str (foldl (\<lambda>s (old, new). str_replace s old new) s tbl))"
proof (induction ps tbl arbitrary: s rule: list_all2_induct)
  case Nil
  then show ?case by simp
next
  case (Cons p ps t tbl)
  then show ?case by (auto simp add: re_sub_literal)
qed

lemma parse_contractions:
  "list_all2 (\<lambda>(pattern, repl) (old, new).
       parse pattern = Some (literal old) \<and> old \<noteq> [] \<and> repl = new \<and> backslash \<notin> set repl)
     contractions contraction_table"
  by (simp add: contractions_def contraction_table_def literal_def u_def backslash_def
      parse_item_def quantified_def ord_def special_chars_def repeat_chars_def ascii_alnum_def)

text \<open>
  C6. The contraction expansion rewrites a string by replacing, one after the other
  in the order of the table, every occurrence of each contraction by its replacement:
  first the three words, then the eight endings. So \<^verbatim>\<open>won't\<close> becomes
  \<^verbatim>\<open>will not\<close>.
\<close>

theorem expand_contractions:
  "call db ExpandCommonEnglishContractions (Str s) =
     Inr (Str (foldl (\<lambda>s (old, new). str_replace s old new) s contraction_table))"
  by (simp add: for_each_re_sub_literal[OF parse_contractions])

theorem expand_contractions_witness:
  "call ascii_db ExpandCommonEnglishContractions (Str (u ''won't'')) = Inr (Str (u ''will not'')) \<and>
   call ascii_db ExpandCommonEnglishContractions (Str (u ''I can't, she's'')) = Inr (Str (u ''I can not, she is''))"
  using expand_contractions [of ascii_db "u ''won't''"] expand_contractions [of ascii_db "u ''I can't, she's''"]
  by (simp add: contraction_table_def u_def)

section \<open>Trim and multi-space collapse\<close>

lemma atom_match_Whitespace [simp]: "atom_match Whitespace = isspace"
  by (rule ext) simp

lemma parse_multiple_spaces:
  "parse multiple_spaces_pattern = Some multiple_spaces"
  by (simp add: multiple_spaces_def multiple_spaces_pattern_def u_def backslash_def
      parse_item_def quantified_def ord_def special_chars_def repeat_chars_def ascii_alnum_def)

lemma backtrack_total:
  "backtrack (\<lambda>j. Some (g j)) lo k = (if lo \<le> k then Some (g k) else None)"
  by (cases k) auto

lemma match_multiple_spaces:
  "match db multiple_spaces adv 0 prev s =
     (case s of
        a # b # cs \<Rightarrow> if isspace a \<and> isspace b then Some (2 + length (takeWhile isspace cs)) else None
      | _ \<Rightarrow> None)"
  by (auto simp add: multiple_spaces_def backtrack_total split: list.splits)

lemma sub_from_multiple_spaces:
  "sub_from db multiple_spaces [32] adv prev s = collapse s"
proof (induction s arbitrary: adv prev rule: collapse.induct)
  case 1
  show ?case by (simp add: sub_from_None match_multiple_spaces)
next
  case (2 c)
  show ?case by (simp add: sub_from_None match_multiple_spaces)
next
  case (3 a b cs)
  show ?case
  proof (cases "isspace a \<and> isspace b")
    case True
    let ?n = "2 + length (takeWhile isspace cs)"
    have m: "match db multiple_spaces adv 0 prev (a # b # cs) = Some ?n"
      using True by (simp add: match_multiple_spaces)
    have d: "drop ?n (a # b # cs) = dropWhile isspace cs"
      by (simp add: dropWhile_eq_drop)
    have "sub_from db multiple_spaces [32] adv prev (a # b # cs) =
        [32] @ sub_from db multiple_spaces [32] (?n = 0) (prev_at prev (a # b # cs) ?n) (dropWhile isspace cs)"
      using sub_from_Some[OF m, of "[32]"] by (simp only: d)
    also have "\<dots> = [32] @ collapse (dropWhile isspace cs)"
      by (simp only: 3(1)[OF True])
    finally show ?thesis using True by simp
  next
    case False
    have m: "match db multiple_spaces adv 0 prev (a # b # cs) = None"
      using False by (simp add: match_multiple_spaces)
    show ?thesis
      using 3(2)[OF False] False sub_from_None[OF m, of "[32]"] by auto
  qed
qed

lemma remove_multiple_spaces_collapse:
  "call db RemoveMultipleSpaces (Str s) = Inr (Str (collapse s))"
  by (simp add: re_sub_def parse_multiple_spaces sub_from_multiple_spaces u_def backslash_def)

lemma collapse_head: "isspace (hd (collapse (b # cs))) = isspace b \<and> collapse (b # cs) \<noteq> []"
  by (cases cs) (auto simp add: isspace_def)

lemma collapse_no_adjacent: "\<not> adjacent_spaces (collapse s)"
proof (induction s rule: collapse.induct)
  case 1
  then show ?case by simp
next
  case (2 c)
  then show ?case by simp
next
  case (3 a b cs)
  show ?case
  proof (cases "isspace a \<and> isspace b")
    case True
    define d where "d = dropWhile isspace cs"
    have c: "collapse (a # b # cs) = 32 # collapse d" using True by (simp add: d_def)
    have ih: "\<not> adjacent_spaces (collapse d)" using 3(1)[OF True] by (simp add: d_def)
    show ?thesis
    proof (cases d)
      case Nil
      with c show ?thesis by simp
    next
      case (Cons x xs)
      then have "d \<noteq> []" by simp
      then have "\<not> isspace (hd d)" unfolding d_def by (rule hd_dropWhile)
      then have nx: "\<not> isspace x" using Cons by simp
      obtain y ys where y: "collapse (x # xs) = y # ys"
        using collapse_head[of x xs] by (cases "collapse (x # xs)") auto
      have "isspace y = isspace x" using collapse_head[of x xs] y by simp
      with nx ih Cons y c show ?thesis by simp
    qed
  next
    case False
    obtain y ys where y: "collapse (b # cs) = y # ys"
      using collapse_head[of b cs] by (cases "collapse (b # cs)") auto
    moreover have "isspace y = isspace b" using collapse_head[of b cs] y by simp
    ultimately show ?thesis using 3(2)[OF False] False by auto
  qed
qed

lemma collapse_fixed: "\<not> adjacent_spaces s \<Longrightarrow> collapse s = s"
  by (induction s rule: collapse.induct) auto

lemma str_strip_trimmed: "trimmed (str_strip s)"
proof -
  define d where "d = dropWhile isspace s"
  define e where "e = dropWhile isspace (rev d)"
  have s: "str_strip s = rev e" by (simp add: str_strip_def d_def e_def)
  show ?thesis
  proof (cases "e = []")
    case True
    with s show ?thesis by (simp add: trimmed_def)
  next
    case False
    have d: "d \<noteq> []"
    proof
      assume "d = []"
      then have "e = []" by (simp add: e_def)
      with False show False by simp
    qed
    have l: "\<not> isspace (hd e)" using False unfolding e_def by (rule hd_dropWhile)
    have h: "\<not> isspace (hd d)" using d unfolding d_def by (rule hd_dropWhile)
    have "hd d \<in> set (rev d)" using d by simp
    then have "last e = last (rev d)"
      unfolding e_def using h by (rule dropWhile_last)
    then have "last e = hd d" using d by (simp add: last_rev)
    then have "hd (rev e) = hd d" "last (rev e) = hd e"
      using False by (simp_all add: hd_rev last_rev)
    with h l False s show ?thesis by (simp add: trimmed_def)
  qed
qed

lemma str_strip_fixed: "trimmed s \<Longrightarrow> str_strip s = s"
proof (cases "s = []")
  case True
  then show ?thesis by (simp add: str_strip_def)
next
  case False
  assume "trimmed s"
  with False have h: "\<not> isspace (hd s)" and l: "\<not> isspace (last s)" by (simp_all add: trimmed_def)
  have "dropWhile isspace s = s" using h False by (cases s) simp_all
  moreover have "dropWhile isspace (rev s) = rev s"
    using l False by (cases "rev s") (simp_all add: last_rev hd_rev)
  ultimately show ?thesis by (simp add: str_strip_def)
qed

lemma collapse_last: "s \<noteq> [] \<Longrightarrow> \<not> isspace (last s) \<Longrightarrow> collapse s \<noteq> [] \<and> last (collapse s) = last s"
proof (induction s rule: collapse.induct)
  case 1
  then show ?case by simp
next
  case (2 c)
  then show ?case by simp
next
  case (3 a b cs)
  show ?case
  proof (cases "isspace a \<and> isspace b")
    case True
    define d where "d = dropWhile isspace cs"
    have c: "collapse (a # b # cs) = 32 # collapse d" using True by (simp add: d_def)
    from True 3(4) have cs: "cs \<noteq> []" by auto
    then have lst: "last (a # b # cs) = last cs" by simp
    have "last cs \<in> set cs" using cs by simp
    moreover have nl: "\<not> isspace (last cs)" using 3(4) lst by simp
    ultimately have dl: "last d = last cs" unfolding d_def by (rule dropWhile_last)
    have dn: "d \<noteq> []"
    proof
      assume "d = []"
      then have "\<forall>x \<in> set cs. isspace x" by (simp add: d_def)
      with \<open>last cs \<in> set cs\<close> nl show False by blast
    qed
    have "collapse d \<noteq> [] \<and> last (collapse d) = last d"
      using 3(1)[OF True] dn nl dl by (simp add: d_def)
    with c lst dl show ?thesis by simp
  next
    case False
    then have c: "collapse (a # b # cs) = a # collapse (b # cs)" by auto
    have "last (a # b # cs) = last (b # cs)" by simp
    with 3(4) have "\<not> isspace (last (b # cs))" by simp
    with 3(2)[OF False] have "collapse (b # cs) \<noteq> [] \<and> last (collapse (b # cs)) = last (b # cs)" by simp
    with c show ?thesis by simp
  qed
qed

lemma collapse_trimmed: "trimmed s \<Longrightarrow> trimmed (collapse s)"
proof (cases s)
  case Nil
  then show ?thesis by (simp add: trimmed_def)
next
  case (Cons c cs)
  assume "trimmed s"
  with Cons have h: "\<not> isspace c" and l: "\<not> isspace (last s)" by (simp_all add: trimmed_def)
  from collapse_head[of c cs] h Cons have "\<not> isspace (hd (collapse s))" by simp
  moreover from collapse_last[of s] l Cons have "\<not> isspace (last (collapse s))" by simp
  ultimately show ?thesis by (simp add: trimmed_def)
qed

text \<open>
  C5. Trim followed by multi-space collapse, on a string, gives the trimmed string
  with its whitespace runs collapsed; applied to its own result it gives that result
  again, so applying the pipeline twice is applying it once.
\<close>

theorem strip_collapse_idempotent:
  "Compose db [Strip, RemoveMultipleSpaces] (Str s) = Inr (Str (collapse (str_strip s))) \<and>
   then_do (Compose db [Strip, RemoveMultipleSpaces] (Str s)) (Compose db [Strip, RemoveMultipleSpaces]) =
     Compose db [Strip, RemoveMultipleSpaces] (Str s)"
proof -
  let ?r = "collapse (str_strip s)"
  have 1: "Compose db [Strip, RemoveMultipleSpaces] (Str s) = Inr (Str ?r)"
    using remove_multiple_spaces_collapse[of db "str_strip s"] by simp
  have "trimmed ?r" by (rule collapse_trimmed[OF str_strip_trimmed])
  then have "str_strip ?r = ?r" by (rule str_strip_fixed)
  moreover have "collapse ?r = ?r" by (rule collapse_fixed[OF collapse_no_adjacent])
  ultimately have 2: "Compose db [Strip, RemoveMultipleSpaces] (Str ?r) = Inr (Str ?r)"
    using remove_multiple_spaces_collapse[of db ?r] by simp
  from 1 2 show ?thesis by simp
qed

theorem strip_collapse_idempotent_witness:
  "Compose ascii_db [Strip, RemoveMultipleSpaces] (Str (u ''  a   b'' @ [9] @ u ''c  '')) =
     Inr (Str (u ''a b'' @ [9] @ u ''c'')) \<and>
   Compose ascii_db [Strip, RemoveMultipleSpaces] (Str (u ''a b'' @ [9] @ u ''c'')) =
     Inr (Str (u ''a b'' @ [9] @ u ''c''))"
  using strip_collapse_idempotent [of ascii_db "u ''  a   b'' @ [9] @ u ''c  ''"]
    strip_collapse_idempotent [of ascii_db "u ''a b'' @ [9] @ u ''c''"]
  by (simp del: Compose.simps add: u_def str_strip_def isspace_def)

section \<open>Bracketed-token removal\<close>

lemma parse_kaldi_pattern: "parse kaldi_pattern = Some kaldi_non_word"
  by (simp add: kaldi_pattern_def kaldi_non_word_def openers_def closers_def u_def backslash_def
      parse_item_def parse_set_def quantified_def ord_def special_chars_def repeat_chars_def ascii_alnum_def)

lemma backtrack_last:
  "(\<forall>j < k. f j = None) \<Longrightarrow> backtrack f 0 k = f k"
  by (induction k) (auto split: option.splits)

lemma match_kaldi:
  "match db kaldi_non_word adv 0 prev s =
     (case s of
        [] \<Rightarrow> None
      | c # cs \<Rightarrow>
          if c \<in> set openers \<and> dropWhile (\<lambda>x. x \<notin> set closers) cs \<noteq> []
          then Some (2 + length (takeWhile (\<lambda>x. x \<notin> set closers) cs))
          else None)"
proof (cases s)
  case Nil
  then show ?thesis by (simp add: kaldi_non_word_def)
next
  case (Cons c cs)
  let ?P = "\<lambda>x. x \<notin> set closers"
  let ?k = "length (takeWhile ?P cs)"
  let ?f = "\<lambda>j. match db [One (In False closers)] adv (Suc 0 + j) (prev_at (Some c) cs j) (drop j cs)"
  have am: "atom_match (In True closers) = ?P" by (rule ext) simp
  have below: "\<forall>j < ?k. ?f j = None"
  proof (intro allI impI)
    fix j assume j: "j < ?k"
    then have "j < length cs" using length_takeWhile_le[of ?P cs] by simp
    then have d: "drop j cs = cs ! j # drop (Suc j) cs" by (simp add: Cons_nth_drop_Suc)
    have "takeWhile ?P cs ! j \<in> set (takeWhile ?P cs)" using j by simp
    then have "?P (takeWhile ?P cs ! j)" by (auto dest: set_takeWhileD)
    then have "?P (cs ! j)" using takeWhile_nth[OF j] by simp
    then show "?f j = None" by (simp add: d)
  qed
  have at: "?f ?k = (if dropWhile ?P cs \<noteq> [] then Some (2 + ?k) else None)"
  proof (cases "dropWhile ?P cs")
    case Nil
    then have "drop ?k cs = []" by (simp only: dropWhile_eq_drop[symmetric])
    then show ?thesis using Nil by simp
  next
    case (Cons x xs)
    then have "dropWhile ?P cs \<noteq> []" by simp
    then have "\<not> ?P (hd (dropWhile ?P cs))" by (rule hd_dropWhile)
    then have "x \<in> set closers" using Cons by simp
    moreover have "drop ?k cs = x # xs" using Cons by (simp only: dropWhile_eq_drop[symmetric])
    ultimately show ?thesis using Cons by simp
  qed
  have "match db kaldi_non_word adv 0 prev (c # cs) =
      (if c \<in> set openers then backtrack ?f 0 ?k else None)"
    by (simp add: kaldi_non_word_def am)
  also have "backtrack ?f 0 ?k = ?f ?k" using below by (rule backtrack_last)
  finally show ?thesis using at Cons by simp
qed

lemma sub_from_kaldi:
  "sub_from db kaldi_non_word [] adv prev s = remove_bracketed s"
proof (induction s arbitrary: adv prev rule: remove_bracketed.induct)
  case 1
  show ?case by (simp add: sub_from_None match_kaldi)
next
  case (2 c cs)
  let ?P = "\<lambda>x. x \<notin> set closers"
  show ?case
  proof (cases "c \<in> set openers \<and> dropWhile ?P cs \<noteq> []")
    case True
    then obtain closer rest where dw: "dropWhile ?P cs = closer # rest"
      by (cases "dropWhile ?P cs") auto
    let ?n = "2 + length (takeWhile ?P cs)"
    have m: "match db kaldi_non_word adv 0 prev (c # cs) = Some ?n"
      using True by (simp add: match_kaldi)
    have "drop (length (takeWhile ?P cs)) cs = closer # rest"
      using dw by (simp only: dropWhile_eq_drop[symmetric])
    then have d: "drop ?n (c # cs) = rest"
      by (simp add: drop_Suc tl_drop[symmetric] drop_tl)
    have "sub_from db kaldi_non_word [] adv prev (c # cs) =
        [] @ sub_from db kaldi_non_word [] (?n = 0) (prev_at prev (c # cs) ?n) rest"
      using sub_from_Some[OF m, of "[]"] by (simp only: d)
    also have "\<dots> = remove_bracketed rest"
      using 2(2)[OF _ dw] True by simp
    finally show ?thesis using True dw by simp
  next
    case False
    have m: "match db kaldi_non_word adv 0 prev (c # cs) = None"
      using False by (simp add: match_kaldi)
    have ih: "sub_from db kaldi_non_word [] False (Some c) cs = remove_bracketed cs"
    proof (cases "c \<in> set openers")
      case True
      with False have "dropWhile ?P cs = []" by simp
      with 2(1)[OF True] show ?thesis by simp
    next
      case False
      with 2(3) show ?thesis by simp
    qed
    have "remove_bracketed (c # cs) = c # remove_bracketed cs"
    proof (cases "c \<in> set openers")
      case True
      with False have "dropWhile ?P cs = []" by blast
      with True show ?thesis by (simp only: remove_bracketed.simps) simp
    next
      case False
      then show ?thesis by simp
    qed
    with ih sub_from_None[OF m, of "[]"] show ?thesis by simp
  qed
qed

lemma remove_bracketed_subseq: "subseq (remove_bracketed s) s"
proof (induction s rule: remove_bracketed.induct)
  case 1
  show ?case by simp
next
  case (2 c cs)
  let ?P = "\<lambda>x. x \<notin> set closers"
  show ?case
  proof (cases "c \<in> set openers")
    case True
    show ?thesis
    proof (cases "dropWhile ?P cs")
      case Nil
      have "remove_bracketed (c # cs) = c # remove_bracketed cs"
        by (simp only: remove_bracketed.simps Nil True if_True list.case)
      with 2(1)[OF True Nil] show ?thesis by simp
    next
      case (Cons closer rest)
      have "cs = takeWhile ?P cs @ closer # rest"
        using takeWhile_dropWhile_id[of ?P cs] Cons by simp
      then have "subseq rest cs"
        by (metis list_emb_Cons list_emb_append2 subseq_order.order_refl)
      with 2(2)[OF True Cons] have "subseq (remove_bracketed rest) (c # cs)"
        by (meson list_emb_Cons subseq_order.order_trans)
      moreover have "remove_bracketed (c # cs) = remove_bracketed rest"
        by (simp only: remove_bracketed.simps Cons True if_True list.case)
      ultimately show ?thesis by simp
    qed
  next
    case False
    with 2(3) show ?thesis by simp
  qed
qed

lemma remove_bracketed_no_opener: "\<forall>c \<in> set s. c \<notin> set openers \<Longrightarrow> remove_bracketed s = s"
  by (induction s) simp_all

text \<open>
  C7, as the code has it. The bracketed-token removal deletes each substring that
  starts with \<^verbatim>\<open><\<close> or \<^verbatim>\<open>[\<close>, goes on through characters other than \<^verbatim>\<open>>\<close> and
  \<^verbatim>\<open>]\<close>, and ends with the first \<^verbatim>\<open>>\<close> or \<^verbatim>\<open>]\<close> after it, whichever of the two
  it is. What is left is a subsequence of the input, and a string with no opener is
  unchanged.
\<close>

theorem remove_kaldi_non_words:
  "call db RemoveKaldiNonWords (Str s) = Inr (Str (remove_bracketed s)) \<and>
   subseq (remove_bracketed s) s \<and>
   ((\<forall>c \<in> set s. c \<notin> set openers) \<longrightarrow> remove_bracketed s = s)"
  by (simp add: re_sub_def parse_kaldi_pattern sub_from_kaldi backslash_def
      remove_bracketed_subseq remove_bracketed_no_opener)

theorem remove_kaldi_non_words_witness:
  "call ascii_db RemoveKaldiNonWords (Str (u ''a <unk> b [laugh] c < d'')) = Inr (Str (u ''a  b  c < d'')) \<and>
   call ascii_db RemoveKaldiNonWords (Str (u ''a > b ]'')) = Inr (Str (u ''a > b ]''))"
  using remove_kaldi_non_words [of ascii_db "u ''a <unk> b [laugh] c < d''"]
    remove_kaldi_non_words [of ascii_db "u ''a > b ]''"]
  by (simp add: u_def openers_def closers_def)

text \<open>
  C7 as stated fails: \<^verbatim>\<open><b]\<close> and \<^verbatim>\<open>[d>\<close> are removed, an opener closed by the
  closer of the other kind.
\<close>

theorem mixed_brackets_removed:
  "call ascii_db RemoveKaldiNonWords (Str (u ''a<b]c[d>e'')) = Inr (Str (u ''ace''))"
  by (simp add: re_sub_def parse_kaldi_pattern sub_from_kaldi backslash_def u_def openers_def closers_def)

section \<open>Whole-word substitution and word removal\<close>

lemma quantified_plain: "plain_start rest \<Longrightarrow> quantified a rest = Some (One a, rest)"
  by (auto simp add: plain_start_def quantified_def repeat_chars_def u_def ord_def split: list.splits)

lemma escaped_char_facts:
  "c \<in> set escaped_chars \<Longrightarrow> c \<noteq> ord CHR ''s'' \<and> c \<noteq> ord CHR ''b'' \<and> \<not> ascii_alnum c"
  by (auto simp add: escaped_chars_def u_def ord_def backslash_def ascii_alnum_def)

lemma plain_char_facts:
  "c \<notin> set escaped_chars \<Longrightarrow>
     c \<noteq> backslash \<and> c \<noteq> ord CHR ''['' \<and> c \<notin> set special_chars \<and> c \<notin> set repeat_chars"
  by (auto simp add: escaped_chars_def special_chars_def repeat_chars_def u_def ord_def backslash_def)

lemma plain_start_re_escape: "plain_start rest \<Longrightarrow> plain_start (re_escape key @ rest)"
proof (cases key)
  case Nil
  assume "plain_start rest"
  with Nil show ?thesis by (simp add: re_escape_def)
next
  case (Cons c k)
  show ?thesis
  proof (cases "c \<in> set escaped_chars")
    case True
    with Cons show ?thesis
      by (simp add: re_escape_def plain_start_def backslash_def repeat_chars_def u_def)
  next
    case False
    with Cons plain_char_facts[OF False] show ?thesis
      by (simp add: re_escape_def plain_start_def)
  qed
qed

lemma re_escape_Cons:
  "re_escape (c # key) = (if c \<in> set escaped_chars then [backslash, c] else [c]) @ re_escape key"
  by (simp add: re_escape_def)

lemma parse_escaped_char:
  assumes "c \<in> set escaped_chars" "plain_start rest"
  shows "parse (backslash # c # rest) = map_option (Cons (One (Lit c))) (parse rest)"
  using escaped_char_facts[OF assms(1)] quantified_plain[OF assms(2), of "Lit c"]
  by (simp add: parse_item_def)

lemma parse_plain_char:
  assumes "c \<notin> set escaped_chars" "plain_start rest"
  shows "parse (c # rest) = map_option (Cons (One (Lit c))) (parse rest)"
  using plain_char_facts[OF assms(1)] quantified_plain[OF assms(2), of "Lit c"]
  by (simp add: parse_item_def)

lemma parse_re_escape:
  "plain_start rest \<Longrightarrow> parse (re_escape key @ rest) = map_option ((@) (literal key)) (parse rest)"
proof (induction key)
  case Nil
  then show ?case by (simp add: re_escape_def literal_def option.map_ident)
next
  case (Cons c key)
  have ps: "plain_start (re_escape key @ rest)" using Cons.prems by (rule plain_start_re_escape)
  show ?case
  proof (cases "c \<in> set escaped_chars")
    case True
    then show ?thesis
      using parse_escaped_char[OF True ps] Cons.IH[OF Cons.prems]
      by (simp add: re_escape_Cons literal_def option.map_comp comp_def)
  next
    case False
    then show ?thesis
      using parse_plain_char[OF False ps] Cons.IH[OF Cons.prems]
      by (simp add: re_escape_Cons literal_def option.map_comp comp_def)
  qed
qed

lemma parse_boundary: "parse [backslash, ord CHR ''b''] = Some [Boundary]"
  by (simp add: parse_item_def backslash_def ord_def)

lemma parse_word_pattern: "parse (word_pattern key) = Some (word_nodes key)"
proof -
  let ?b = "[backslash, ord CHR ''b'']"
  have pb: "plain_start ?b" by (simp add: plain_start_def backslash_def repeat_chars_def u_def)
  then have ps: "plain_start (re_escape key @ ?b)" by (rule plain_start_re_escape)
  have inner: "parse (re_escape key @ ?b) = Some (literal key @ [Boundary])"
    using parse_re_escape[OF pb, of key] unfolding parse_boundary by simp
  have "parse (backslash # ord CHR ''b'' # re_escape key @ ?b) =
      map_option (Cons Boundary) (parse (re_escape key @ ?b))"
    using ps by (cases "re_escape key @ ?b")
      (simp_all add: parse_item_def plain_start_def backslash_def ord_def)
  with inner show ?thesis
    by (simp add: word_pattern_def word_nodes_def u_def ord_def)
qed

lemma match_word_nodes:
  "match db (word_nodes key) False 0 prev s =
     (if at_boundary db prev s \<and> prefix key s \<and>
         at_boundary db (prev_at prev s (length key)) (drop (length key) s)
      then Some (length key) else None)"
  by (simp add: word_nodes_def match_literal_append)

lemma substitute_words_fold:
  "\<forall>kv \<in> set substitutions. backslash \<notin> set (snd kv) \<Longrightarrow>
   call db (SubstituteWords substitutions) (Str s) =
     Inr (Str (foldl (\<lambda>s (key, value). sub_from db (word_nodes key) value False None s) s substitutions))"
  by (induction substitutions arbitrary: s) (auto simp add: re_sub_def parse_word_pattern)

lemma update_constant_map:
  "AList.update w v (map (\<lambda>k. (k, v)) ks) =
     (if w \<in> set ks then map (\<lambda>k. (k, v)) ks else map (\<lambda>k. (k, v)) ks @ [(w, v)])"
  by (induction ks) auto

lemma remove_specific_words_mapping:
  "foldl (\<lambda>mapping word. AList.update word v mapping) [] ws = map (\<lambda>k. (k, v)) (rev (remdups (rev ws)))"
  by (induction ws rule: rev_induct) (simp_all add: update_constant_map)

text \<open>
  C10. For every key, the pattern of the whole-word substitution, the escaped key
  between two \<^verbatim>\<open>\b\<close>, is read as the key itself, character by character, between two
  word boundaries: no character of the key acts as a metacharacter. It matches at a
  position exactly when the key stands there with a word boundary before and after it.
  With replacements that hold no backslash, the transform substitutes with these
  patterns, one mapping item after the other. The word removal is the whole-word
  substitution that maps each listed word, once, to a single space.
\<close>

theorem substitute_words_literal:
  "parse (word_pattern key) = Some (word_nodes key) \<and>
   match db (word_nodes key) False 0 prev s =
     (if at_boundary db prev s \<and> prefix key s \<and>
         at_boundary db (prev_at prev s (length key)) (drop (length key) s)
      then Some (length key) else None) \<and>
   ((\<forall>kv \<in> set substitutions. backslash \<notin> set (snd kv)) \<longrightarrow>
      call db (SubstituteWords substitutions) (Str s) =
        Inr (Str (foldl (\<lambda>s (key, value). sub_from db (word_nodes key) value False None s) s substitutions))) \<and>
   RemoveSpecificWords words_to_remove =
     SubstituteWords (map (\<lambda>word. (word, u '' '')) (rev (remdups (rev words_to_remove))))"
  using parse_word_pattern match_word_nodes substitute_words_fold
  by (simp add: RemoveSpecificWords_def remove_specific_words_mapping)

theorem substitute_words_literal_witness:
  "parse (word_pattern (u ''a.b*'')) =
     Some [Boundary, One (Lit 97), One (Lit 46), One (Lit 98), One (Lit 42), Boundary] \<and>
   call ascii_db (SubstituteWords [(u ''c.t'', u ''dog'')]) (Str (u ''cat c.t cut'')) =
     Inr (Str (u ''cat dog cut'')) \<and>
   call ascii_db (RemoveSpecificWords [u ''a'', u ''the'', u ''a'']) (Str (u ''a cat the bat'')) =
     Inr (Str (u ''  cat   bat''))"
  using substitute_words_literal
      [of "u ''a.b*''" ascii_db None "u ''cat c.t cut''" "[(u ''c.t'', u ''dog'')]" "[]"]
    substitute_words_literal
      [of "u ''a''" ascii_db None "u ''a cat the bat''" "[(u ''a'', u '' ''), (u ''the'', u '' '')]"
        "[u ''a'', u ''the'', u ''a'']"]
  by (simp add: u_def word_nodes_def literal_def sub_from.simps backslash_def ascii_db_def
      at_boundary_def is_word_def ascii_alnum_def prev_at_def)

end
